theory Spec2Isabelle
  imports Complex_Main "HOL-Library.Sublist" "HOL-Library.Multiset"
begin

section \<open>Data model of the binding generator\<close>

text \<open>
  The generator is JavaScript. Objects become records, \<open>null\<close> becomes \<open>None\<close>,
  arrays become lists and strings become character lists. Field names carry a
  short prefix because several object shapes of the source share the field
  names \<open>name\<close>, \<open>params\<close> and \<open>returnType\<close>.
\<close>

text \<open>A parameter as extracted from the syntax tree (methods-from-ast.mjs).\<close>

record param =
  p_name :: string
  p_type :: string
  p_defaultValue :: "string option"

record js_doc =
  descriptionLines :: "string list"
  paramDocs :: "(string \<times> string) list"
  returns :: string

record method_decl =
  m_name :: string
  m_returnType :: string
  m_params :: "param list"
  m_jsDoc :: js_doc

text \<open>The shapes built by \<open>buildApiMethods\<close> (render-jsbsim-api).\<close>

record api_param =
  ap_name :: string
  ap_typeName :: string
  ap_defaultValue :: "string option"

record overload =
  o_method :: method_decl
  o_params :: "api_param list"
  o_returnType :: string

record method_group =
  camelName :: string
  sourceMethodName :: string
  overloads :: "overload list"

record arg_range =
  minArgs :: nat
  maxArgs :: nat

record fill_case =
  providedArgCount :: nat
  defaultValues :: "string option list"

section \<open>Default fill cases for overload groups\<close>

text \<open>
  \<open>getRequiredParamCount\<close>: the loop walks the parameter list from its last index
  down and stops at the first parameter without a default. The second argument
  of the loop function is the loop index plus one.
\<close>

fun countTrailingDefaults :: "api_param list \<Rightarrow> nat \<Rightarrow> nat \<Rightarrow> nat" where
  "countTrailingDefaults params 0 trailingDefaultCount = trailingDefaultCount"
| "countTrailingDefaults params (Suc index) trailingDefaultCount =
     (if ap_defaultValue (params ! index) = None then trailingDefaultCount
      else countTrailingDefaults params index (trailingDefaultCount + 1))"

definition getRequiredParamCount :: "api_param list \<Rightarrow> nat" where
  "getRequiredParamCount params =
     length params - countTrailingDefaults params (length params) 0"

definition overloadRanges :: "overload list \<Rightarrow> arg_range list" where
  "overloadRanges ovs =
     map (\<lambda>ov. \<lparr>minArgs = getRequiredParamCount (o_params ov),
                 maxArgs = length (o_params ov)\<rparr>) ovs"

definition accepts :: "arg_range \<Rightarrow> nat \<Rightarrow> bool" where
  "accepts rng n = (minArgs rng \<le> n \<and> n \<le> maxArgs rng)"

definition acceptorCount :: "arg_range list \<Rightarrow> nat \<Rightarrow> nat" where
  "acceptorCount ranges n = length (filter (\<lambda>rng. accepts rng n) ranges)"

text \<open>One round of the inner loop: \<open>None\<close> stands for \<open>continue\<close>.\<close>

definition fillCaseAt :: "arg_range list \<Rightarrow> overload \<Rightarrow> nat \<Rightarrow> fill_case option" where
  "fillCaseAt ranges ov n =
     (if acceptorCount ranges n \<noteq> 1 then None
      else let missingParams = drop n (o_params ov) in
        if list_ex (\<lambda>p. ap_defaultValue p = None) missingParams then None
        else Some \<lparr>providedArgCount = n,
                   defaultValues = map ap_defaultValue missingParams\<rparr>)"

definition fillCasesOfOverload :: "arg_range list \<Rightarrow> overload \<Rightarrow> arg_range \<Rightarrow> fill_case list" where
  "fillCasesOfOverload ranges ov rng =
     List.map_filter (fillCaseAt ranges ov) [minArgs rng ..< maxArgs rng]"

text \<open>
  The final \<open>sort\<close> of the source compares \<open>providedArgCount\<close> only and is stable;
  \<open>sort_key\<close> is the stable insertion sort on that key.
\<close>

definition buildDefaultFillCasesForOverloads :: "overload list \<Rightarrow> fill_case list" where
  "buildDefaultFillCasesForOverloads ovs =
     (let ranges = overloadRanges ovs in
      sort_key providedArgCount
        (concat (map (\<lambda>(ov, rng). fillCasesOfOverload ranges ov rng) (zip ovs ranges))))"

text \<open>
  The \<open>switch\<close> statement that \<open>renderJsbsimApiClass\<close> emits for a group with fill
  cases has one \<open>case\<close> per fill case, in list order, each pushing the fill case's
  default values onto the argument array, and an empty \<open>default\<close>. A JavaScript
  \<open>switch\<close> runs the first matching \<open>case\<close>. The function below is the argument
  array after that statement; \<open>lit\<close> evaluates a default literal.
\<close>

definition normalizedArgs :: "(string option \<Rightarrow> 'v) \<Rightarrow> fill_case list \<Rightarrow> 'v list \<Rightarrow> 'v list" where
  "normalizedArgs lit fillCases args =
     (case find (\<lambda>fc. providedArgCount fc = length args) fillCases of
        None \<Rightarrow> args
      | Some fc \<Rightarrow> args @ map lit (defaultValues fc))"


subsection \<open>Example overload groups\<close>

definition emptyDoc :: js_doc where
  "emptyDoc = \<lparr>descriptionLines = [], paramDocs = [], returns = []\<rparr>"

text \<open>
  The two \<open>LoadModel\<close> overloads of the library header: the short one takes a model
  name and a flag defaulting to \<open>true\<close>, the long one three paths, a model name and
  the same flag.
\<close>

definition scenarioB_overloads :: "overload list" where
  "scenarioB_overloads =
     [\<lparr>o_method = \<lparr>m_name = ''LoadModel'', m_returnType = ''bool'',
          m_params = [\<lparr>p_name = ''model'', p_type = ''const std::string&'', p_defaultValue = None\<rparr>,
                      \<lparr>p_name = ''addModelToPath'', p_type = ''bool'', p_defaultValue = Some ''true''\<rparr>],
          m_jsDoc = emptyDoc\<rparr>,
       o_params = [\<lparr>ap_name = ''model'', ap_typeName = ''string'', ap_defaultValue = None\<rparr>,
                   \<lparr>ap_name = ''addModelToPath'', ap_typeName = ''boolean'',
                    ap_defaultValue = Some ''true''\<rparr>],
       o_returnType = ''boolean''\<rparr>,
      \<lparr>o_method = \<lparr>m_name = ''LoadModel'', m_returnType = ''bool'',
          m_params = [\<lparr>p_name = ''AircraftPath'', p_type = ''const std::string&'', p_defaultValue = None\<rparr>,
                      \<lparr>p_name = ''EnginePath'', p_type = ''const std::string&'', p_defaultValue = None\<rparr>,
                      \<lparr>p_name = ''SystemsPath'', p_type = ''const std::string&'', p_defaultValue = None\<rparr>,
                      \<lparr>p_name = ''model'', p_type = ''const std::string&'', p_defaultValue = None\<rparr>,
                      \<lparr>p_name = ''addModelToPath'', p_type = ''bool'', p_defaultValue = Some ''true''\<rparr>],
          m_jsDoc = emptyDoc\<rparr>,
       o_params = [\<lparr>ap_name = ''AircraftPath'', ap_typeName = ''string'', ap_defaultValue = None\<rparr>,
                   \<lparr>ap_name = ''EnginePath'', ap_typeName = ''string'', ap_defaultValue = None\<rparr>,
                   \<lparr>ap_name = ''SystemsPath'', ap_typeName = ''string'', ap_defaultValue = None\<rparr>,
                   \<lparr>ap_name = ''model'', ap_typeName = ''string'', ap_defaultValue = None\<rparr>,
                   \<lparr>ap_name = ''addModelToPath'', ap_typeName = ''boolean'',
                    ap_defaultValue = Some ''true''\<rparr>],
       o_returnType = ''boolean''\<rparr>]"

text \<open>
  Two overloads whose accepted counts overlap: \<open>Seek(pos, whence = 0)\<close> accepts one
  or two arguments, \<open>Seek(pos, whence, flags = 1)\<close> two or three.
\<close>

definition overlapping_overloads :: "overload list" where
  "overlapping_overloads =
     [\<lparr>o_method = \<lparr>m_name = ''Seek'', m_returnType = ''void'',
          m_params = [\<lparr>p_name = ''pos'', p_type = ''int'', p_defaultValue = None\<rparr>,
                      \<lparr>p_name = ''whence'', p_type = ''int'', p_defaultValue = Some ''0''\<rparr>],
          m_jsDoc = emptyDoc\<rparr>,
       o_params = [\<lparr>ap_name = ''pos'', ap_typeName = ''number'', ap_defaultValue = None\<rparr>,
                   \<lparr>ap_name = ''whence'', ap_typeName = ''number'', ap_defaultValue = Some ''0''\<rparr>],
       o_returnType = ''void''\<rparr>,
      \<lparr>o_method = \<lparr>m_name = ''Seek'', m_returnType = ''void'',
          m_params = [\<lparr>p_name = ''pos'', p_type = ''int'', p_defaultValue = None\<rparr>,
                      \<lparr>p_name = ''whence'', p_type = ''int'', p_defaultValue = None\<rparr>,
                      \<lparr>p_name = ''flags'', p_type = ''int'', p_defaultValue = Some ''1''\<rparr>],
          m_jsDoc = emptyDoc\<rparr>,
       o_params = [\<lparr>ap_name = ''pos'', ap_typeName = ''number'', ap_defaultValue = None\<rparr>,
                   \<lparr>ap_name = ''whence'', ap_typeName = ''number'', ap_defaultValue = None\<rparr>,
                   \<lparr>ap_name = ''flags'', ap_typeName = ''number'', ap_defaultValue = Some ''1''\<rparr>],
       o_returnType = ''void''\<rparr>]"

subsection \<open>The required parameter count\<close>

lemma countTrailingDefaults_takeWhile:
  "index \<le> length params \<Longrightarrow>
     countTrailingDefaults params index acc =
       acc + length (takeWhile (\<lambda>p. ap_defaultValue p \<noteq> None) (rev (take index params)))"
proof (induction index arbitrary: acc)
  case 0
  then show ?case by simp
next
  case (Suc index)
  then have lt: "index < length params" by simp
  have "rev (take (Suc index) params) = params ! index # rev (take index params)"
    using lt by (simp add: take_Suc_conv_app_nth)
  then show ?case using Suc by simp
qed

lemma getRequiredParamCount_takeWhile:
  "getRequiredParamCount params =
     length params - length (takeWhile (\<lambda>p. ap_defaultValue p \<noteq> None) (rev params))"
  by (simp add: getRequiredParamCount_def countTrailingDefaults_takeWhile)

lemma getRequiredParamCount_le: "getRequiredParamCount params \<le> length params"
  by (simp add: getRequiredParamCount_takeWhile)

lemma trailing_have_defaults:
  assumes "getRequiredParamCount params \<le> i" and "i < length params"
  shows "ap_defaultValue (params ! i) \<noteq> None"
proof -
  let ?P = "\<lambda>p. ap_defaultValue p \<noteq> None"
  let ?tw = "takeWhile ?P (rev params)"
  have len: "length ?tw \<le> length params"
    using length_takeWhile_le [of ?P "rev params"] by simp
  have j: "length params - Suc i < length ?tw"
    using assms len by (simp add: getRequiredParamCount_takeWhile)
  have "?tw ! (length params - Suc i) \<in> set ?tw"
    using j by (rule nth_mem)
  then have "?P (?tw ! (length params - Suc i))"
    by (rule set_takeWhileD [THEN conjunct2])
  moreover have "?tw ! (length params - Suc i) = rev params ! (length params - Suc i)"
    using j by (rule takeWhile_nth)
  ultimately have "?P (rev params ! (length params - Suc i))"
    by simp
  then show ?thesis using assms(2) by (simp add: rev_nth)
qed

lemma last_required_has_no_default:
  assumes "0 < getRequiredParamCount params"
  shows "ap_defaultValue (params ! (getRequiredParamCount params - 1)) = None"
proof -
  let ?P = "\<lambda>p. ap_defaultValue p \<noteq> None"
  let ?tw = "takeWhile ?P (rev params)"
  have lt: "length ?tw < length (rev params)"
    using assms by (simp add: getRequiredParamCount_takeWhile)
  then have "\<not> ?P (rev params ! length ?tw)"
    by (rule nth_length_takeWhile)
  moreover have "rev params ! length ?tw = params ! (getRequiredParamCount params - 1)"
    using lt by (simp add: rev_nth getRequiredParamCount_takeWhile)
  ultimately show ?thesis by simp
qed

lemma drop_all_defaults:
  assumes "getRequiredParamCount params \<le> n"
  shows "\<not> list_ex (\<lambda>p. ap_defaultValue p = None) (drop n params)"
proof -
  have "ap_defaultValue p \<noteq> None" if "p \<in> set (drop n params)" for p
  proof -
    from that obtain k where k: "k < length (drop n params)" "drop n params ! k = p"
      by (auto simp: in_set_conv_nth)
    then have "p = params ! (n + k)" "n + k < length params" by auto
    then show ?thesis using trailing_have_defaults [of params "n + k"] assms by simp
  qed
  then show ?thesis by (auto simp: list_ex_iff)
qed

subsection \<open>Which fill cases are recorded\<close>

lemma zip_overloadRanges:
  "zip ovs (overloadRanges ovs) =
     map (\<lambda>ov. (ov, \<lparr>minArgs = getRequiredParamCount (o_params ov),
                        maxArgs = length (o_params ov)\<rparr>)) ovs"
  by (induction ovs) (simp_all add: overloadRanges_def)

text \<open>
  At or above the required count every remaining parameter has a default, so the
  second \<open>continue\<close> of the inner loop is never taken.
\<close>

lemma fillCaseAt_trailing:
  "getRequiredParamCount (o_params ov) \<le> n \<Longrightarrow>
   fillCaseAt ranges ov n =
     (if acceptorCount ranges n = 1
      then Some \<lparr>providedArgCount = n,
                 defaultValues = map ap_defaultValue (drop n (o_params ov))\<rparr>
      else None)"
  by (simp add: fillCaseAt_def drop_all_defaults)

lemma set_fillCasesOfOverload:
  "set (fillCasesOfOverload ranges ov
          \<lparr>minArgs = getRequiredParamCount (o_params ov), maxArgs = length (o_params ov)\<rparr>) =
     {\<lparr>providedArgCount = n, defaultValues = map ap_defaultValue (drop n (o_params ov))\<rparr> | n.
        getRequiredParamCount (o_params ov) \<le> n \<and> n < length (o_params ov) \<and>
        acceptorCount ranges n = 1}"
  by (auto simp: fillCasesOfOverload_def List.map_filter_def fillCaseAt_trailing image_iff
           split: if_splits)

lemma set_unsorted_fill_cases:
  "set (concat (map (\<lambda>(ov, rng). fillCasesOfOverload ranges ov rng)
                    (zip ovs (overloadRanges ovs)))) =
     {\<lparr>providedArgCount = n, defaultValues = map ap_defaultValue (drop n (o_params ov))\<rparr> | ov n.
        ov \<in> set ovs \<and> getRequiredParamCount (o_params ov) \<le> n \<and> n < length (o_params ov) \<and>
        acceptorCount ranges n = 1}"
  by (auto simp: zip_overloadRanges set_fillCasesOfOverload)

lemma set_fill_cases:
  "set (buildDefaultFillCasesForOverloads ovs) =
     {\<lparr>providedArgCount = n, defaultValues = map ap_defaultValue (drop n (o_params ov))\<rparr> | ov n.
        ov \<in> set ovs \<and> getRequiredParamCount (o_params ov) \<le> n \<and> n < length (o_params ov) \<and>
        acceptorCount (overloadRanges ovs) n = 1}"
  unfolding buildDefaultFillCasesForOverloads_def Let_def set_sort set_unsorted_fill_cases ..

lemma sorted_fill_cases:
  "sorted (map providedArgCount (buildDefaultFillCasesForOverloads ovs))"
  by (simp add: buildDefaultFillCasesForOverloads_def Let_def)

lemma fill_case_origin:
  assumes "fc \<in> set (buildDefaultFillCasesForOverloads ovs)"
  shows "\<exists>ov n. fc = \<lparr>providedArgCount = n,
        defaultValues = map ap_defaultValue (drop n (o_params ov))\<rparr> \<and>
      ov \<in> set ovs \<and> getRequiredParamCount (o_params ov) \<le> n \<and> n < length (o_params ov) \<and>
      acceptorCount (overloadRanges ovs) n = 1"
  using assms unfolding set_fill_cases mem_Collect_eq .

lemma fill_case_defaults_present:
  assumes "fc \<in> set (buildDefaultFillCasesForOverloads ovs)"
  shows "None \<notin> set (defaultValues fc)"
proof -
  from fill_case_origin [OF assms] obtain ov :: overload and n where
    dv: "defaultValues fc = map ap_defaultValue (drop n (o_params ov))"
    and n: "getRequiredParamCount (o_params ov) \<le> n"
    by force
  from drop_all_defaults [OF n] show ?thesis
    unfolding dv list_ex_iff by auto
qed

lemma required_is_least:
  "getRequiredParamCount params =
     (LEAST k. \<forall>i. k \<le> i \<and> i < length params \<longrightarrow> ap_defaultValue (params ! i) \<noteq> None)"
proof (rule Least_equality [symmetric])
  show "\<forall>i. getRequiredParamCount params \<le> i \<and> i < length params \<longrightarrow>
          ap_defaultValue (params ! i) \<noteq> None"
    using trailing_have_defaults by blast
next
  fix k
  assume k: "\<forall>i. k \<le> i \<and> i < length params \<longrightarrow> ap_defaultValue (params ! i) \<noteq> None"
  show "getRequiredParamCount params \<le> k"
  proof (rule ccontr)
    assume "\<not> getRequiredParamCount params \<le> k"
    then have pos: "0 < getRequiredParamCount params"
      and ge: "k \<le> getRequiredParamCount params - 1" by simp_all
    have "getRequiredParamCount params - 1 < length params"
      using pos getRequiredParamCount_le [of params] by simp
    with k ge have "ap_defaultValue (params ! (getRequiredParamCount params - 1)) \<noteq> None"
      by blast
    with last_required_has_no_default [OF pos] show False by simp
  qed
qed

subsection \<open>No provided count is filled twice\<close>

lemma count_list_distinct:
  "distinct xs \<Longrightarrow> count_list xs a = (if a \<in> set xs then 1 else 0)"
  by (induction xs) auto

lemma count_concat_le:
  "(\<And>x. x \<in> set xs \<Longrightarrow> distinct (h x)) \<Longrightarrow>
     count_list (concat (map h xs)) a \<le> length (filter (\<lambda>x. a \<in> set (h x)) xs)"
proof (induction xs)
  case Nil
  then show ?case by simp
next
  case (Cons x xs)
  have "count_list (h x) a = (if a \<in> set (h x) then 1 else 0)"
    using Cons.prems [of x] by (simp add: count_list_distinct)
  then show ?case using Cons by auto
qed

lemma distinct_if_count_le_1:
  "(\<And>a. count_list xs a \<le> 1) \<Longrightarrow> distinct xs"
proof (induction xs)
  case Nil
  then show ?case by simp
next
  case (Cons x xs)
  have "count_list xs a \<le> 1" for a
    using Cons.prems [of a] by (simp split: if_splits)
  then have "distinct xs" by (rule Cons.IH)
  moreover have "x \<notin> set xs"
    using Cons.prems [of x] by (simp add: count_list_0_iff)
  ultimately show ?case by simp
qed

lemma distinct_map_sort_key:
  "distinct (map f (sort_key g xs)) = distinct (map f xs)"
proof -
  have "mset (map f (sort_key g xs)) = mset (map f xs)" by simp
  then show ?thesis by (rule mset_eq_imp_distinct_iff)
qed

lemma length_filter_mono:
  "(\<And>x. x \<in> set xs \<Longrightarrow> P x \<Longrightarrow> Q x) \<Longrightarrow> length (filter P xs) \<le> length (filter Q xs)"
  by (induction xs) auto

lemma provided_counts_of_overload:
  "map providedArgCount (fillCasesOfOverload ranges ov rng) =
     filter (\<lambda>n. fillCaseAt ranges ov n \<noteq> None) [minArgs rng ..< maxArgs rng]"
proof -
  have "providedArgCount (the (fillCaseAt ranges ov n)) = n" if "fillCaseAt ranges ov n \<noteq> None" for n
    using that by (simp add: fillCaseAt_def Let_def split: if_splits)
  then have "map (providedArgCount \<circ> (the \<circ> fillCaseAt ranges ov))
      (filter (\<lambda>n. fillCaseAt ranges ov n \<noteq> None) [minArgs rng ..< maxArgs rng]) =
      filter (\<lambda>n. fillCaseAt ranges ov n \<noteq> None) [minArgs rng ..< maxArgs rng]"
    by (intro map_idI) simp
  then show ?thesis
    by (simp add: fillCasesOfOverload_def List.map_filter_def)
qed

lemma acceptorCount_overloadRanges:
  "acceptorCount (overloadRanges ovs) n =
     length (filter (\<lambda>ov. getRequiredParamCount (o_params ov) \<le> n \<and> n \<le> length (o_params ov)) ovs)"
  by (simp add: acceptorCount_def overloadRanges_def filter_map accepts_def comp_def)

lemma distinct_fill_case_counts:
  "distinct (map providedArgCount (buildDefaultFillCasesForOverloads ovs))"
proof -
  let ?R = "overloadRanges ovs"
  let ?h = "\<lambda>ov. filter (\<lambda>n. fillCaseAt ?R ov n \<noteq> None)
                    [getRequiredParamCount (o_params ov) ..< length (o_params ov)]"
  have unsorted: "map providedArgCount
      (concat (map (\<lambda>(ov, rng). fillCasesOfOverload ?R ov rng) (zip ovs ?R))) = concat (map ?h ovs)"
    by (simp add: zip_overloadRanges map_concat comp_def provided_counts_of_overload)
  have "count_list (concat (map ?h ovs)) a \<le> 1" for a
  proof -
    have "count_list (concat (map ?h ovs)) a \<le> length (filter (\<lambda>ov. a \<in> set (?h ov)) ovs)"
      by (rule count_concat_le) simp
    also have "\<dots> \<le> 1"
    proof (cases "acceptorCount ?R a = 1")
      case True
      have "length (filter (\<lambda>ov. a \<in> set (?h ov)) ovs) \<le> acceptorCount ?R a"
        unfolding acceptorCount_overloadRanges by (rule length_filter_mono) simp
      then show ?thesis using True by simp
    next
      case False
      then have "filter (\<lambda>ov. a \<in> set (?h ov)) ovs = []"
        by (auto simp: filter_empty_conv fillCaseAt_def)
      then show ?thesis by simp
    qed
    finally show ?thesis .
  qed
  then have "distinct (concat (map ?h ovs))" by (rule distinct_if_count_le_1)
  then show ?thesis
    by (simp add: buildDefaultFillCasesForOverloads_def Let_def distinct_map_sort_key unsorted)
qed

lemma fill_case_unique_acceptor:
  assumes "fc \<in> set (buildDefaultFillCasesForOverloads ovs)"
  shows "acceptorCount (overloadRanges ovs) (providedArgCount fc) = 1"
proof -
  from fill_case_origin [OF assms] obtain n where
    "providedArgCount fc = n" and "acceptorCount (overloadRanges ovs) n = 1"
    by force
  then show ?thesis by simp
qed

subsection \<open>The fill cases of the example groups\<close>

lemma scenarioB_ranges:
  "overloadRanges scenarioB_overloads =
     [\<lparr>minArgs = 1, maxArgs = 2\<rparr>, \<lparr>minArgs = 4, maxArgs = 5\<rparr>]"
  by (simp add: scenarioB_overloads_def overloadRanges_def getRequiredParamCount_def
      eval_nat_numeral)

lemma scenarioB_fill_cases:
  "buildDefaultFillCasesForOverloads scenarioB_overloads =
     [\<lparr>providedArgCount = 1, defaultValues = [Some ''true'']\<rparr>,
      \<lparr>providedArgCount = 4, defaultValues = [Some ''true'']\<rparr>]"
  unfolding buildDefaultFillCasesForOverloads_def scenarioB_ranges Let_def
  by (simp add: scenarioB_overloads_def fillCasesOfOverload_def List.map_filter_def
      fillCaseAt_def acceptorCount_def accepts_def upt_conv_Cons)

lemma overlapping_ranges:
  "overloadRanges overlapping_overloads =
     [\<lparr>minArgs = 1, maxArgs = 2\<rparr>, \<lparr>minArgs = 2, maxArgs = 3\<rparr>]"
  by (simp add: overlapping_overloads_def overloadRanges_def getRequiredParamCount_def
      eval_nat_numeral)

lemma overlapping_fill_cases:
  "buildDefaultFillCasesForOverloads overlapping_overloads =
     [\<lparr>providedArgCount = 1, defaultValues = [Some ''0'']\<rparr>]"
  unfolding buildDefaultFillCasesForOverloads_def overlapping_ranges Let_def
  by (simp add: overlapping_overloads_def fillCasesOfOverload_def List.map_filter_def
      fillCaseAt_def acceptorCount_def accepts_def upt_conv_Cons)

subsection \<open>Claim C1\<close>

text \<open>
  Claim C1, as stated, lets a fill case exist only for argument counts strictly
  between an overload's minimum and its maximum. The loop of
  \<open>buildDefaultFillCasesForOverloads\<close> starts at the minimum itself. For the two
  \<open>LoadModel\<close> overloads the first fill case is for one provided argument, which is
  the minimum of the short overload (accepted range 1 to 2) and is accepted by
  that overload only; no count lies strictly between 1 and 2.
\<close>

theorem fill_case_at_minimum_counterexample:
  "providedArgCount (hd (buildDefaultFillCasesForOverloads scenarioB_overloads)) = 1 \<and>
   minArgs (hd (overloadRanges scenarioB_overloads)) = 1 \<and>
   maxArgs (hd (overloadRanges scenarioB_overloads)) = 2 \<and>
   acceptorCount (overloadRanges scenarioB_overloads) 1 = 1 \<and>
   \<not> (minArgs (hd (overloadRanges scenarioB_overloads))
        < providedArgCount (hd (buildDefaultFillCasesForOverloads scenarioB_overloads)))"
  by (simp add: scenarioB_fill_cases scenarioB_ranges acceptorCount_def accepts_def)

text \<open>
  Claim C1, amended: for every overload group, each overload's minimum accepted
  argument count is \<open>getRequiredParamCount\<close> of its parameters, which is the least
  index from which on every parameter has a default, and its maximum is its
  parameter count. A fill case is recorded exactly for the argument counts that
  are at least an overload's minimum, strictly below its maximum, and accepted
  by exactly one overload of the group; it holds the default values of that
  overload's remaining parameters, none of which is missing. The returned list
  is sorted by ascending provided-argument count.
\<close>

theorem fill_cases_characterised:
  "overloadRanges ovs =
     map (\<lambda>ov. \<lparr>minArgs = getRequiredParamCount (o_params ov),
                 maxArgs = length (o_params ov)\<rparr>) ovs \<and>
   (\<forall>ov \<in> set ovs. getRequiredParamCount (o_params ov) =
      (LEAST k. \<forall>i. k \<le> i \<and> i < length (o_params ov) \<longrightarrow>
                  ap_defaultValue (o_params ov ! i) \<noteq> None)) \<and>
   set (buildDefaultFillCasesForOverloads ovs) =
     {\<lparr>providedArgCount = n, defaultValues = map ap_defaultValue (drop n (o_params ov))\<rparr> | ov n.
        ov \<in> set ovs \<and> getRequiredParamCount (o_params ov) \<le> n \<and> n < length (o_params ov) \<and>
        acceptorCount (overloadRanges ovs) n = 1} \<and>
   (\<forall>fc \<in> set (buildDefaultFillCasesForOverloads ovs). None \<notin> set (defaultValues fc)) \<and>
   sorted (map providedArgCount (buildDefaultFillCasesForOverloads ovs))"
proof (intro conjI ballI)
  show "overloadRanges ovs =
     map (\<lambda>ov. \<lparr>minArgs = getRequiredParamCount (o_params ov),
                 maxArgs = length (o_params ov)\<rparr>) ovs"
    by (simp add: overloadRanges_def)
next
  fix ov
  show "getRequiredParamCount (o_params ov) =
      (LEAST k. \<forall>i. k \<le> i \<and> i < length (o_params ov) \<longrightarrow>
                  ap_defaultValue (o_params ov ! i) \<noteq> None)"
    by (rule required_is_least)
next
  show "set (buildDefaultFillCasesForOverloads ovs) =
     {\<lparr>providedArgCount = n, defaultValues = map ap_defaultValue (drop n (o_params ov))\<rparr> | ov n.
        ov \<in> set ovs \<and> getRequiredParamCount (o_params ov) \<le> n \<and> n < length (o_params ov) \<and>
        acceptorCount (overloadRanges ovs) n = 1}"
    by (rule set_fill_cases)
next
  fix fc
  assume "fc \<in> set (buildDefaultFillCasesForOverloads ovs)"
  then show "None \<notin> set (defaultValues fc)"
    by (rule fill_case_defaults_present)
next
  show "sorted (map providedArgCount (buildDefaultFillCasesForOverloads ovs))"
    by (rule sorted_fill_cases)
qed

theorem fill_cases_characterised_witness:
  "overloadRanges scenarioB_overloads =
     [\<lparr>minArgs = 1, maxArgs = 2\<rparr>, \<lparr>minArgs = 4, maxArgs = 5\<rparr>] \<and>
   set (buildDefaultFillCasesForOverloads scenarioB_overloads) =
     {\<lparr>providedArgCount = 1, defaultValues = [Some ''true'']\<rparr>,
      \<lparr>providedArgCount = 4, defaultValues = [Some ''true'']\<rparr>} \<and>
   None \<notin> set (defaultValues (hd (buildDefaultFillCasesForOverloads scenarioB_overloads))) \<and>
   sorted (map providedArgCount (buildDefaultFillCasesForOverloads scenarioB_overloads))"
  using fill_cases_characterised [of scenarioB_overloads]
  by (simp add: scenarioB_fill_cases scenarioB_ranges)

subsection \<open>Claim C2\<close>

text \<open>
  Claim C2: if a provided argument count is accepted by more than one overload
  of the group, no fill case exists for that count, so the emitted \<open>switch\<close>
  leaves an argument array of that length as it is; and no two fill cases of a
  group share a provided-argument count.
\<close>

theorem ambiguous_count_not_filled:
  "(1 < acceptorCount (overloadRanges ovs) n \<longrightarrow>
      (\<forall>fc \<in> set (buildDefaultFillCasesForOverloads ovs). providedArgCount fc \<noteq> n) \<and>
      (\<forall>args. length args = n \<longrightarrow>
         normalizedArgs lit (buildDefaultFillCasesForOverloads ovs) args = args)) \<and>
   distinct (map providedArgCount (buildDefaultFillCasesForOverloads ovs))"
proof (intro conjI impI allI ballI)
  fix fc
  assume amb: "1 < acceptorCount (overloadRanges ovs) n"
    and fc: "fc \<in> set (buildDefaultFillCasesForOverloads ovs)"
  from fill_case_unique_acceptor [OF fc] amb show "providedArgCount fc \<noteq> n" by auto
next
  fix args :: "'a list"
  assume amb: "1 < acceptorCount (overloadRanges ovs) n" and len: "length args = n"
  have "find (\<lambda>fc. providedArgCount fc = length args)
          (buildDefaultFillCasesForOverloads ovs) = None"
    unfolding find_None_iff using fill_case_unique_acceptor amb len by fastforce
  then show "normalizedArgs lit (buildDefaultFillCasesForOverloads ovs) args = args"
    by (simp add: normalizedArgs_def)
next
  show "distinct (map providedArgCount (buildDefaultFillCasesForOverloads ovs))"
    by (rule distinct_fill_case_counts)
qed

theorem ambiguous_count_not_filled_witness:
  "1 < acceptorCount (overloadRanges overlapping_overloads) 2 \<and>
   providedArgCount (hd (buildDefaultFillCasesForOverloads overlapping_overloads)) \<noteq> 2 \<and>
   normalizedArgs id (buildDefaultFillCasesForOverloads overlapping_overloads)
     [Some ''7'', Some ''8''] = [Some ''7'', Some ''8''] \<and>
   normalizedArgs id (buildDefaultFillCasesForOverloads overlapping_overloads)
     [Some ''7''] = [Some ''7'', Some ''0''] \<and>
   distinct (map providedArgCount (buildDefaultFillCasesForOverloads overlapping_overloads))"
  using ambiguous_count_not_filled [of overlapping_overloads 2 id]
  by (simp add: overlapping_fill_cases overlapping_ranges acceptorCount_def accepts_def
      normalizedArgs_def)

end
